theory Spec2Isabelle
  imports Complex_Main "HOL-Library.AList" "HOL-Library.Sublist" "HOL-Library.Multiset"
begin

text \<open>
  The format selection and the progress tracking of the universal video downloader
  (src/downloader.py): the quality menu that \<open>fetch_qualities\<close> builds from the format
  list of \<open>yt-dlp -J\<close>, the handling of one output line of the download process, and
  the guards and the command line of \<open>download_video\<close>. The window, the installers and
  the two external processes are outside the model.
\<close>

section \<open>Format resolution (\<open>fetch_qualities\<close>, src/downloader.py lines 235--282)\<close>

text \<open>
  One entry of the \<open>formats\<close> list that \<open>yt-dlp -J\<close> prints. Every key the code reads
  with \<open>fmt.get\<close> may be absent (or JSON \<open>null\<close>), which is \<open>None\<close> here. Heights are
  integers and bit rates are numbers; a bit rate is compared only, so the rationals
  stand for the finite floating-point values of the JSON document.
\<close>

record fmt =
  format_id :: "string option"
  height :: "int option"
  vcodec :: "string option"
  acodec :: "string option"
  tbr :: "rat option"
  abr :: "rat option"

text \<open>
  A value of \<open>quality_map\<close>: either the descriptor itself (line 249) or the dictionary
  built at lines 270--276, whose keys are \<open>video_format_id\<close>, \<open>audio_format_id\<close>,
  \<open>height\<close> and \<open>video_tbr\<close>, with \<open>combined\<close> set to \<open>True\<close>.
\<close>

datatype entry =
  Single fmt
| Paired string string int rat

datatype error = KeyError

type_synonym quality_map = "(string \<times> entry) list"

text \<open>\<open>d.get(k, 0) or 0\<close> on a numeric field: absent, null and zero all give 0.\<close>

fun or0 :: "rat option \<Rightarrow> rat" where
  "or0 None = 0"
| "or0 (Some x) = x"

text \<open>\<open>str\<close> of a Python integer, as the f-string at lines 245 and 254 prints it.\<close>

definition digit_char :: "nat \<Rightarrow> char" where
  "digit_char d = ''0123456789'' ! d"

fun str_nat :: "nat \<Rightarrow> string" where
  "str_nat n = (if n < 10 then [digit_char n] else str_nat (n div 10) @ [digit_char (n mod 10)])"

declare str_nat.simps [simp del]

definition str_int :: "int \<Rightarrow> string" where
  "str_int i = (if i < 0 then CHR ''-'' # str_nat (nat (- i)) else str_nat (nat i))"

definition quality_key :: "int \<Rightarrow> string" where
  "quality_key h = str_int h @ ''p''"

text \<open>
  What the lookups at lines 247, 267 and 280 read from a stored value. A descriptor
  has no key \<open>video_tbr\<close> and the paired dictionary has no key \<open>tbr\<close>: both read 0.
\<close>

fun entry_tbr :: "entry \<Rightarrow> rat" where
  "entry_tbr (Single f) = or0 (tbr f)"
| "entry_tbr (Paired v a h t) = 0"

fun entry_video_tbr :: "entry \<Rightarrow> rat" where
  "entry_video_tbr (Single f) = 0"
| "entry_video_tbr (Paired v a h t) = t"

fun entry_height :: "entry \<Rightarrow> int" where
  "entry_height (Single f) = (case height f of None \<Rightarrow> 0 | Some h \<Rightarrow> h)"
| "entry_height (Paired v a h t) = h"

definition is_combined :: "fmt \<Rightarrow> bool" where
  "is_combined f \<longleftrightarrow> vcodec f \<noteq> Some ''none'' \<and> acodec f \<noteq> Some ''none''"

definition is_video_only :: "fmt \<Rightarrow> bool" where
  "is_video_only f \<longleftrightarrow> vcodec f \<noteq> Some ''none'' \<and> acodec f = Some ''none''"

definition is_audio_only :: "fmt \<Rightarrow> bool" where
  "is_audio_only f \<longleftrightarrow> acodec f \<noteq> Some ''none'' \<and> vcodec f = Some ''none''"

text \<open>The inner loop of lines 257--263, with \<open>best_audio\<close> as its accumulator.\<close>

fun best_audio_loop :: "fmt list \<Rightarrow> fmt option \<Rightarrow> fmt option" where
  "best_audio_loop [] best_audio = best_audio"
| "best_audio_loop (audio_fmt # rest) best_audio =
     best_audio_loop rest
       (if is_audio_only audio_fmt then
          (let current_abr = or0 (abr audio_fmt);
               best_abr = (case best_audio of None \<Rightarrow> 0 | Some b \<Rightarrow> or0 (abr b))
           in if best_audio = None \<or> current_abr > best_abr then Some audio_fmt
              else best_audio)
        else best_audio)"

definition find_best_audio :: "fmt list \<Rightarrow> fmt option" where
  "find_best_audio formats = best_audio_loop formats None"

text \<open>
  One iteration of the loop at line 240. Assigning to a key of a Python dictionary
  keeps the key's position when it is present and appends it otherwise, which is
  \<open>AList.update\<close>. The subscripts \<open>fmt['format_id']\<close> and \<open>best_audio['format_id']\<close>
  raise \<open>KeyError\<close> on a descriptor without that key.
\<close>

definition step :: "fmt list \<Rightarrow> quality_map \<Rightarrow> fmt \<Rightarrow> error + quality_map" where
  "step formats qm f =
     (if is_combined f then
        (case height f of
           None \<Rightarrow> Inr qm
         | Some h \<Rightarrow>
             if h = 0 then Inr qm
             else
               (let current_tbr = or0 (tbr f);
                    existing_tbr =
                      (case map_of qm (quality_key h) of None \<Rightarrow> 0 | Some e \<Rightarrow> entry_tbr e)
                in if map_of qm (quality_key h) = None \<or> current_tbr > existing_tbr
                   then Inr (AList.update (quality_key h) (Single f) qm)
                   else Inr qm))
      else if is_video_only f then
        (case height f of
           None \<Rightarrow> Inr qm
         | Some h \<Rightarrow>
             if h = 0 then Inr qm
             else
               (case find_best_audio formats of
                  None \<Rightarrow> Inr qm
                | Some best_audio \<Rightarrow>
                    (let current_video_tbr = or0 (tbr f);
                         existing_video_tbr =
                           (case map_of qm (quality_key h) of
                              None \<Rightarrow> 0 | Some e \<Rightarrow> entry_video_tbr e)
                     in if map_of qm (quality_key h) = None
                           \<or> current_video_tbr > existing_video_tbr
                        then
                          (case format_id f of
                             None \<Rightarrow> Inl KeyError
                           | Some vid \<Rightarrow>
                               (case format_id best_audio of
                                  None \<Rightarrow> Inl KeyError
                                | Some aid \<Rightarrow>
                                    Inr (AList.update (quality_key h)
                                           (Paired vid aid h current_video_tbr) qm)))
                        else Inr qm)))
      else Inr qm)"

fun process_formats :: "fmt list \<Rightarrow> fmt list \<Rightarrow> quality_map \<Rightarrow> error + quality_map" where
  "process_formats formats [] qm = Inr qm"
| "process_formats formats (f # fs) qm =
     (case step formats qm f of
        Inl e \<Rightarrow> Inl e
      | Inr qm' \<Rightarrow> process_formats formats fs qm')"

text \<open>
  Lines 279--282: \<open>sorted(..., reverse=True)\<close> is a stable sort by descending key,
  that is a stable ascending sort by the negated key.
\<close>

definition sort_qualities :: "quality_map \<Rightarrow> quality_map" where
  "sort_qualities qm = sort_key (\<lambda>kv. - entry_height (snd kv)) qm"

text \<open>
  The value stored in \<open>formats_data\<close> for a list of descriptors (the spec's
  \<open>resolve\<close>), or the exception that ends \<open>fetch_thread\<close> in its last handler.
\<close>

definition fetch_qualities :: "fmt list \<Rightarrow> error + quality_map" where
  "fetch_qualities formats =
     (case process_formats formats formats [] of
        Inl e \<Rightarrow> Inl e
      | Inr qm \<Rightarrow> Inr (sort_qualities qm))"

text \<open>The descriptors of the spec's two worked examples (section 8).\<close>

definition combined_1080 :: fmt where
  "combined_1080 = \<lparr>format_id = Some ''22'', height = Some 1080, vcodec = Some ''avc1'',
     acodec = Some ''mp4a'', tbr = Some 5000, abr = None\<rparr>"

definition video_1080 :: fmt where
  "video_1080 = \<lparr>format_id = Some ''137'', height = Some 1080, vcodec = Some ''avc1'',
     acodec = Some ''none'', tbr = Some 8000, abr = None\<rparr>"

definition audio_128 :: fmt where
  "audio_128 = \<lparr>format_id = Some ''140'', height = None, vcodec = Some ''none'',
     acodec = Some ''mp4a'', tbr = None, abr = Some 128\<rparr>"

definition combined_720 :: fmt where
  "combined_720 = \<lparr>format_id = Some ''18'', height = Some 720, vcodec = Some ''avc1'',
     acodec = Some ''mp4a'', tbr = Some 2000, abr = None\<rparr>"

definition audio_48 :: fmt where
  "audio_48 = \<lparr>format_id = Some ''139'', height = None, vcodec = Some ''none'',
     acodec = Some ''mp4a'', tbr = None, abr = Some 48\<rparr>"

definition audio_unrated :: fmt where
  "audio_unrated = \<lparr>format_id = Some ''600'', height = None, vcodec = Some ''none'',
     acodec = Some ''opus'', tbr = None, abr = None\<rparr>"

section \<open>Progress lines (\<open>download_video\<close>, lines 354--367)\<close>

text \<open>
  A Python string is the list of its code points. \<open>ustr\<close> gives the code points of an
  ASCII literal.
\<close>

type_synonym ustring = "int list"

definition ustr :: "string \<Rightarrow> ustring" where
  "ustr s = map of_char s"

text \<open>
  \<open>str.strip()\<close>, the class \<open>\d\<close> of a \<open>str\<close> pattern and \<open>float\<close> read two tables of the
  interpreter's Unicode database, which is not part of the repository: the code points
  that \<open>str.isspace\<close> accepts, and the value of a code point as a decimal digit
  (category Nd). The functions below take the tables as their first argument.
\<close>

record unicode_db =
  isspace :: "int \<Rightarrow> bool"
  decimal :: "int \<Rightarrow> nat option"

text \<open>
  What every version of the tables has: below 128 the digits are \<open>0\<close> to \<open>9\<close> and the
  white space is the ASCII white space, and no white space is a digit.
\<close>

definition ascii_decimal :: "int \<Rightarrow> nat option" where
  "ascii_decimal c = (if 48 \<le> c \<and> c \<le> 57 then Some (nat (c - 48)) else None)"

definition ascii_space :: "int \<Rightarrow> bool" where
  "ascii_space c \<longleftrightarrow> (9 \<le> c \<and> c \<le> 13) \<or> (28 \<le> c \<and> c \<le> 32)"

definition unicode_tables :: "unicode_db \<Rightarrow> bool" where
  "unicode_tables U \<longleftrightarrow>
     (\<forall>c. 0 \<le> c \<and> c < 128 \<longrightarrow> decimal U c = ascii_decimal c \<and> isspace U c = ascii_space c)
     \<and> (\<forall>c. isspace U c \<longrightarrow> decimal U c = None)"

text \<open>
  The tables of Unicode 14.0 (Python 3.11). The decimal digits come in runs of ten,
  from the digit zero of a script to its digit nine; \<open>zero_digits\<close> lists the zeros.
\<close>

definition zero_digits :: "int list" where
  "zero_digits = [0x30, 0x660, 0x6F0, 0x7C0, 0x966, 0x9E6, 0xA66, 0xAE6, 0xB66, 0xBE6, 0xC66,
     0xCE6, 0xD66, 0xDE6, 0xE50, 0xED0, 0xF20, 0x1040, 0x1090, 0x17E0, 0x1810, 0x1946, 0x19D0,
     0x1A80, 0x1A90, 0x1B50, 0x1BB0, 0x1C40, 0x1C50, 0xA620, 0xA8D0, 0xA900, 0xA9D0, 0xA9F0,
     0xAA50, 0xABF0, 0xFF10, 0x104A0, 0x10D30, 0x11066, 0x110F0, 0x11136, 0x111D0, 0x112F0,
     0x11450, 0x114D0, 0x11650, 0x116C0, 0x11730, 0x118E0, 0x11950, 0x11C50, 0x11D50, 0x11DA0,
     0x16A60, 0x16AC0, 0x16B50, 0x1D7CE, 0x1D7D8, 0x1D7E2, 0x1D7EC, 0x1D7F6, 0x1E140, 0x1E2F0,
     0x1E950, 0x1FBF0]"

definition white_space :: "int list" where
  "white_space = [0x09, 0x0A, 0x0B, 0x0C, 0x0D, 0x1C, 0x1D, 0x1E, 0x1F, 0x20, 0x85, 0xA0,
     0x1680, 0x2000, 0x2001, 0x2002, 0x2003, 0x2004, 0x2005, 0x2006, 0x2007, 0x2008, 0x2009,
     0x200A, 0x2028, 0x2029, 0x202F, 0x205F, 0x3000]"

definition unicode_14 :: unicode_db where
  "unicode_14 =
     \<lparr>isspace = (\<lambda>c. c \<in> set white_space),
      decimal = (\<lambda>c. case find (\<lambda>z. z \<le> c \<and> c < z + 10) zero_digits of
                         None \<Rightarrow> None
                       | Some z \<Rightarrow> Some (nat (c - z)))\<rparr>"

text \<open>\<open>str.strip()\<close> removes the white space at both ends.\<close>

definition strip :: "unicode_db \<Rightarrow> ustring \<Rightarrow> ustring" where
  "strip U s = rev (dropWhile (isspace U) (rev (dropWhile (isspace U) s)))"

definition is_digit :: "unicode_db \<Rightarrow> int \<Rightarrow> bool" where
  "is_digit U c \<longleftrightarrow> decimal U c \<noteq> None"

text \<open>
  The pattern \<open>(\d+\.?\d*)%\<close> of line 359 tried at the start of \<open>s\<close>; the result is
  group 1. A run of digits that is followed by \<open>%\<close> or by \<open>.\<close> ends where the digits
  end, so the greedy match and every match found by backtracking are the same one.
\<close>

definition match_percent :: "unicode_db \<Rightarrow> ustring \<Rightarrow> ustring option" where
  "match_percent U s =
     (let ds = takeWhile (is_digit U) s; r = dropWhile (is_digit U) s
      in if ds = [] then None
         else
           (case r of
              [] \<Rightarrow> None
            | c # r' \<Rightarrow>
                if c = of_char CHR ''%'' then Some ds
                else if c = of_char CHR ''.'' then
                  (let fs = takeWhile (is_digit U) r'; r'' = dropWhile (is_digit U) r'
                   in (case r'' of
                         [] \<Rightarrow> None
                       | d # _ \<Rightarrow>
                           if d = of_char CHR ''%'' then Some (ds @ of_char CHR ''.'' # fs)
                           else None))
                else None))"

text \<open>\<open>re.search\<close>: the match at the leftmost position that has one.\<close>

fun re_search :: "unicode_db \<Rightarrow> ustring \<Rightarrow> ustring option" where
  "re_search U [] = None"
| "re_search U (c # cs) =
     (case match_percent U (c # cs) of
        Some g \<Rightarrow> Some g
      | None \<Rightarrow> re_search U cs)"

text \<open>
  \<open>float\<close> of group 1, as the exact value of the decimal numeral, each digit with its
  value in the table; Python rounds that value to the nearest double.
\<close>

definition digit_val :: "unicode_db \<Rightarrow> int \<Rightarrow> nat" where
  "digit_val U c = (case decimal U c of None \<Rightarrow> 0 | Some d \<Rightarrow> d)"

definition nat_of_digits :: "unicode_db \<Rightarrow> ustring \<Rightarrow> nat" where
  "nat_of_digits U ds = foldl (\<lambda>n c. 10 * n + digit_val U c) 0 ds"

definition float_of_decimal :: "unicode_db \<Rightarrow> ustring \<Rightarrow> rat" where
  "float_of_decimal U g =
     (let ip = takeWhile (is_digit U) g; fp = drop (Suc (length ip)) g
      in of_nat (nat_of_digits U ip) + of_nat (nat_of_digits U fp) / 10 ^ length fp)"

datatype progress = Downloading rat | Merging

text \<open>
  What one line of the process's output makes the loop body do (the spec's
  \<open>extract\<close>): set the percentage and the downloading status, set the merging status,
  or nothing.
\<close>

definition extract_progress :: "unicode_db \<Rightarrow> ustring \<Rightarrow> progress option" where
  "extract_progress U raw =
     (let line = strip U raw
      in if sublist (ustr ''[download]'') line \<and> sublist (ustr ''%'') line then
           (case re_search U line of
              None \<Rightarrow> None
            | Some g \<Rightarrow> Some (Downloading (float_of_decimal U g)))
         else if sublist (ustr ''Merging formats'') line then Some Merging
         else None)"

section \<open>The application's state and \<open>download_video\<close> (lines 312--387)\<close>

text \<open>
  The text of \<open>status_var\<close>; \<open>Status_Downloading p\<close> is the text
  \<open>Downloading... {p:.1f}%\<close>. \<open>download_thread\<close> is \<open>None\<close> before the first download
  and otherwise holds what \<open>is_alive()\<close> answers.
\<close>

datatype status = Status_Text string | Status_Downloading rat

record app =
  url_var :: ustring
  quality_var :: string
  progress_var :: rat
  status_var :: status
  formats_data :: quality_map
  download_thread :: "bool option"

definition handle_line :: "unicode_db \<Rightarrow> ustring \<Rightarrow> 'a app_scheme \<Rightarrow> 'a app_scheme" where
  "handle_line U raw s =
     (case extract_progress U raw of
        None \<Rightarrow> s
      | Some (Downloading p) \<Rightarrow> s\<lparr>progress_var := p, status_var := Status_Downloading p\<rparr>
      | Some Merging \<Rightarrow> s\<lparr>status_var := Status_Text ''Merging video and audio...''\<rparr>)"

text \<open>Lines 335--348: the selector and the command line of the download.\<close>

definition format_selector :: "entry \<Rightarrow> error + string" where
  "format_selector format_info =
     (case format_info of
        Paired video_format_id audio_format_id h t \<Rightarrow>
          Inr (video_format_id @ ''+'' @ audio_format_id)
      | Single f \<Rightarrow> (case format_id f of None \<Rightarrow> Inl KeyError | Some i \<Rightarrow> Inr i))"

definition download_cmd :: "unicode_db \<Rightarrow> 'a app_scheme \<Rightarrow> ustring \<Rightarrow> error + ustring list" where
  "download_cmd U s output_path =
     (case map_of (formats_data s) (quality_var s) of
        None \<Rightarrow> Inl KeyError
      | Some format_info \<Rightarrow>
          (case format_selector format_info of
             Inl e \<Rightarrow> Inl e
           | Inr sel \<Rightarrow>
               Inr [ustr ''yt-dlp'', ustr ''-f'', ustr sel, ustr ''--merge-output-format'',
                    ustr ''mp4'', ustr ''-o'', output_path, strip U (url_var s)]))"

text \<open>
  Lines 312--320 and 386--387: the two guards, then the new thread. The message boxes
  are the result; the state is returned as the call leaves it.
\<close>

datatype message = Show_Warning string string | Show_Info string string

datatype outcome = Rejected message | Started

definition download_video :: "'a app_scheme \<Rightarrow> outcome \<times> 'a app_scheme" where
  "download_video s =
     (if quality_var s = [] \<or> url_var s = [] then
        (Rejected (Show_Warning ''Warning'' ''Please select a quality and enter URL!''), s)
      else if download_thread s = Some True then
        (Rejected (Show_Info ''Info'' ''Download already in progress!''), s)
      else (Started, s\<lparr>download_thread := Some True\<rparr>))"

text \<open>
  States of the application used as examples; the URL of the first ends with a
  no-break space and a space.
\<close>

definition session_720 :: app where
  "session_720 = \<lparr>url_var = ustr ''https://example.org/v'' @ [0xA0, 0x20], quality_var = ''720p'',
     progress_var = 0, status_var = Status_Text ''Ready'',
     formats_data = [(''720p'', Single combined_720)], download_thread = None\<rparr>"

definition busy_no_url :: app where
  "busy_no_url = \<lparr>url_var = [], quality_var = ''720p'',
     progress_var = 40, status_var = Status_Downloading 40,
     formats_data = [(''720p'', Single combined_720)], download_thread = Some True\<rparr>"

definition busy_720 :: app where
  "busy_720 = \<lparr>url_var = ustr ''https://example.org/v'', quality_var = ''720p'',
     progress_var = 40, status_var = Status_Downloading 40,
     formats_data = [(''720p'', Single combined_720)], download_thread = Some True\<rparr>"

text \<open>
  Lines of the download's output used as examples: a destination line whose file name
  has the fullwidth digits five and zero before a percent sign, and one with the
  Arabic-Indic digits five and zero.
\<close>

definition fullwidth_line :: ustring where
  "fullwidth_line = ustr ''[download] Destination: '' @ [0xFF15, 0xFF10] @ ustr ''% 45.3%.mp4''"

definition arabic_indic_line :: ustring where
  "arabic_indic_line = ustr ''[download] Destination: Videos/'' @ [0x665, 0x660] @ ustr ''% off.mp4''"

section \<open>Predicates used in the statements\<close>

text \<open>
  The invariant of \<open>quality_map\<close>: keys are distinct, and every key is the label of
  the height its value carries, which is never zero.
\<close>

definition well_keyed :: "quality_map \<Rightarrow> bool" where
  "well_keyed qm \<longleftrightarrow>
     distinct (map fst qm) \<and>
     (\<forall>kv\<in>set qm. fst kv = quality_key (entry_height (snd kv)) \<and> entry_height (snd kv) \<noteq> 0)"

text \<open>Where a stored value comes from in the list of descriptors.\<close>

fun entry_source :: "fmt list \<Rightarrow> entry \<Rightarrow> bool" where
  "entry_source formats (Single f) \<longleftrightarrow> f \<in> set formats \<and> is_combined f"
| "entry_source formats (Paired vid aid h t) \<longleftrightarrow>
     (\<exists>v\<in>set formats. is_video_only v \<and> height v = Some h \<and> format_id v = Some vid
        \<and> t = or0 (tbr v))
     \<and> (\<exists>a\<in>set formats. find_best_audio formats = Some a \<and> format_id a = Some aid)"

text \<open>
  The numeric values of the progress rule: one or more digits, optionally followed by
  a fractional part, which is a dot and any number of digits (possibly none).
\<close>

definition numeric :: "unicode_db \<Rightarrow> ustring \<Rightarrow> bool" where
  "numeric U g \<longleftrightarrow>
     takeWhile (is_digit U) g \<noteq> [] \<and>
     (case dropWhile (is_digit U) g of
        [] \<Rightarrow> True
      | c # fs \<Rightarrow> c = of_char CHR ''.'' \<and> list_all (is_digit U) fs)"

section \<open>Properties of the format resolution\<close>

lemma set_update_cases:
  "kv \<in> set (AList.update k v al) \<Longrightarrow> kv = (k, v) \<or> kv \<in> set al"
  by (induction al) (auto split: if_splits)

lemma step_cases:
  assumes "step formats qm f = Inr qm'"
  shows "qm' = qm
    \<or> (\<exists>h. height f = Some h \<and> h \<noteq> 0 \<and> is_combined f
          \<and> qm' = AList.update (quality_key h) (Single f) qm)
    \<or> (\<exists>h a vid aid. height f = Some h \<and> h \<noteq> 0 \<and> is_video_only f
          \<and> find_best_audio formats = Some a \<and> format_id f = Some vid
          \<and> format_id a = Some aid
          \<and> qm' = AList.update (quality_key h) (Paired vid aid h (or0 (tbr f))) qm)"
  using assms
  by (auto simp: step_def Let_def split: if_splits option.splits)

lemma step_well_keyed:
  assumes "step formats qm f = Inr qm'" and "well_keyed qm"
  shows "well_keyed qm'"
  using step_cases [OF assms(1)] assms(2)
  by (auto simp: well_keyed_def distinct_update dest!: set_update_cases)

lemma process_formats_well_keyed:
  "process_formats formats fs qm = Inr qm' \<Longrightarrow> well_keyed qm \<Longrightarrow> well_keyed qm'"
  by (induction fs arbitrary: qm) (auto split: sum.splits dest: step_well_keyed)

lemma best_audio_loop_mem:
  "best_audio_loop fs b = Some a \<Longrightarrow> a \<in> set fs \<or> b = Some a"
  by (induction fs arbitrary: b) (auto simp: Let_def split: if_splits)

lemma find_best_audio_mem: "find_best_audio fs = Some a \<Longrightarrow> a \<in> set fs"
  by (auto simp: find_best_audio_def dest: best_audio_loop_mem)

lemma step_source:
  assumes "step formats qm f = Inr qm'" and "f \<in> set formats"
    and "\<forall>kv\<in>set qm. entry_source formats (snd kv)"
  shows "\<forall>kv\<in>set qm'. entry_source formats (snd kv)"
  using step_cases [OF assms(1)] assms(2,3)
  by (auto dest!: set_update_cases dest: find_best_audio_mem)

lemma process_formats_source:
  "process_formats formats fs qm = Inr qm' \<Longrightarrow> set fs \<subseteq> set formats \<Longrightarrow>
   \<forall>kv\<in>set qm. entry_source formats (snd kv) \<Longrightarrow>
   \<forall>kv\<in>set qm'. entry_source formats (snd kv)"
proof (induction fs arbitrary: qm)
  case Nil
  then show ?case by simp
next
  case (Cons f fs)
  from Cons.prems(1) obtain qm1 where s: "step formats qm f = Inr qm1"
    and r: "process_formats formats fs qm1 = Inr qm'"
    by (auto split: sum.splits)
  from Cons.prems(2) have "f \<in> set formats" by simp
  from step_source [OF s this Cons.prems(3)]
  have "\<forall>kv\<in>set qm1. entry_source formats (snd kv)" .
  with Cons.IH [OF r] Cons.prems(2) show ?case by simp
qed

lemma fetch_qualities_Inr:
  assumes "fetch_qualities formats = Inr opts"
  obtains qm where "process_formats formats formats [] = Inr qm" and "opts = sort_qualities qm"
  using assms by (auto simp: fetch_qualities_def split: sum.splits)

lemma set_sort_qualities [simp]: "set (sort_qualities qm) = set qm"
  by (simp add: sort_qualities_def)

lemma distinct_keys_sort_qualities:
  "distinct (map fst (sort_qualities qm)) = distinct (map fst qm)"
proof -
  have "mset (map fst (sort_qualities qm)) = mset (map fst qm)"
    by (simp add: sort_qualities_def)
  then show ?thesis by (rule mset_eq_imp_distinct_iff)
qed

lemma well_keyed_sort_qualities: "well_keyed qm \<Longrightarrow> well_keyed (sort_qualities qm)"
  by (simp add: well_keyed_def distinct_keys_sort_qualities)

lemma fetch_qualities_well_keyed:
  "fetch_qualities formats = Inr opts \<Longrightarrow> well_keyed opts"
proof -
  assume "fetch_qualities formats = Inr opts"
  then obtain qm where p: "process_formats formats formats [] = Inr qm"
    and o: "opts = sort_qualities qm"
    by (rule fetch_qualities_Inr)
  have "well_keyed []" by (simp add: well_keyed_def)
  with p have "well_keyed qm" by (rule process_formats_well_keyed)
  with o show "well_keyed opts" by (simp add: well_keyed_sort_qualities)
qed

lemma sorted_sort_qualities:
  "sorted_wrt (\<lambda>a b. entry_height (snd b) \<le> entry_height (snd a)) (sort_qualities qm)"
proof -
  have "sorted (map (\<lambda>kv. - entry_height (snd kv)) (sort_qualities qm))"
    unfolding sort_qualities_def by (rule sorted_sort_key)
  then show ?thesis by (simp add: sorted_map)
qed

text \<open>
  C3. Whenever \<open>fetch_qualities\<close> (the spec's \<open>resolve\<close>) returns its options, they are
  in order of non-increasing height, and each label is the decimal height followed
  by \<open>p\<close>.
\<close>

theorem fetch_qualities_descending_height:
  assumes "fetch_qualities formats = Inr opts"
  shows "sorted_wrt (\<lambda>a b. entry_height (snd a) \<ge> entry_height (snd b)) opts
    \<and> (\<forall>kv\<in>set opts. fst kv = quality_key (entry_height (snd kv)))"
proof -
  from assms obtain qm where "opts = sort_qualities qm"
    by (rule fetch_qualities_Inr)
  then have "sorted_wrt (\<lambda>a b. entry_height (snd a) \<ge> entry_height (snd b)) opts"
    by (simp add: sorted_sort_qualities)
  moreover from fetch_qualities_well_keyed [OF assms]
  have "\<forall>kv\<in>set opts. fst kv = quality_key (entry_height (snd kv))"
    by (simp add: well_keyed_def)
  ultimately show ?thesis by simp
qed

theorem fetch_qualities_descending_height_witness:
  "fetch_qualities [combined_720, video_1080, audio_128]
     = Inr [(''1080p'', Paired ''137'' ''140'' 1080 8000), (''720p'', Single combined_720)]
   \<and> sorted_wrt (\<lambda>a b. entry_height (snd a) \<ge> entry_height (snd b))
        [(''1080p'', Paired ''137'' ''140'' 1080 8000), (''720p'', Single combined_720)]"
proof -
  have h: "fetch_qualities [combined_720, video_1080, audio_128]
     = Inr [(''1080p'', Paired ''137'' ''140'' 1080 8000), (''720p'', Single combined_720)]"
    by code_simp
  from h fetch_qualities_descending_height [OF h] show ?thesis by blast
qed

text \<open>
  C4. Whenever \<open>fetch_qualities\<close> returns its options, no two of them have the same
  label and no two of them have the same height.
\<close>

theorem fetch_qualities_unique_labels:
  assumes "fetch_qualities formats = Inr opts"
  shows "distinct (map fst opts) \<and> distinct (map (\<lambda>kv. entry_height (snd kv)) opts)"
proof -
  from fetch_qualities_well_keyed [OF assms]
  have d: "distinct (map fst opts)"
    and k: "\<forall>kv\<in>set opts. fst kv = quality_key (entry_height (snd kv))"
    by (simp_all add: well_keyed_def)
  from k have "map fst opts = map quality_key (map (\<lambda>kv. entry_height (snd kv)) opts)"
    by simp
  with d have "distinct (map quality_key (map (\<lambda>kv. entry_height (snd kv)) opts))"
    by simp
  then have "distinct (map (\<lambda>kv. entry_height (snd kv)) opts)"
    by (simp only: distinct_map)
  with d show ?thesis by simp
qed

theorem fetch_qualities_unique_labels_witness:
  "fetch_qualities [combined_1080, combined_720, video_1080, audio_128, combined_720]
     = Inr [(''1080p'', Paired ''137'' ''140'' 1080 8000), (''720p'', Single combined_720)]
   \<and> distinct (map fst
        [(''1080p'', Paired ''137'' ''140'' 1080 8000), (''720p'', Single combined_720)])"
proof -
  have h: "fetch_qualities [combined_1080, combined_720, video_1080, audio_128, combined_720]
     = Inr [(''1080p'', Paired ''137'' ''140'' 1080 8000), (''720p'', Single combined_720)]"
    by code_simp
  from h fetch_qualities_unique_labels [OF h] show ?thesis by blast
qed

text \<open>
  C1. The claim is that a combined descriptor beats a paired candidate of the same
  height only when its bit rate is strictly greater than the pair's video bit rate.
  With the video-only descriptor (bit rate 8000) and the audio descriptor ahead of the
  combined one (bit rate 5000) the code selects the combined descriptor: line 247 reads
  the key \<open>tbr\<close> of the stored pair, which has none. In the order of the spec's example
  the pair is selected, because line 267 reads \<open>video_tbr\<close> of the stored descriptor.
\<close>

theorem paired_before_combined_selects_combined:
  "fetch_qualities [video_1080, audio_128, combined_1080] = Inr [(''1080p'', Single combined_1080)]
   \<and> tbr combined_1080 = Some 5000 \<and> tbr video_1080 = Some 8000
   \<and> fetch_qualities [combined_1080, video_1080, audio_128]
       = Inr [(''1080p'', Paired ''137'' ''140'' 1080 8000)]"
  by code_simp

lemma fetch_qualities_order_matters:
  "mset [video_1080, audio_128, combined_1080] = mset [combined_1080, video_1080, audio_128]
   \<and> fetch_qualities [video_1080, audio_128, combined_1080]
       \<noteq> fetch_qualities [combined_1080, video_1080, audio_128]"
proof -
  have a: "fetch_qualities [video_1080, audio_128, combined_1080]
      = Inr [(''1080p'', Single combined_1080)]"
    by code_simp
  have b: "fetch_qualities [combined_1080, video_1080, audio_128]
      = Inr [(''1080p'', Paired ''137'' ''140'' 1080 8000)]"
    by code_simp
  show ?thesis unfolding a b by simp
qed

text \<open>
  C2. When the loop reaches a combined descriptor with a non-zero height whose key
  holds a paired value, the descriptor replaces that value as soon as its bit rate is
  positive, whatever the pair's video bit rate is; and \<open>fetch_qualities\<close> gives different
  results on two lists with the same elements.
\<close>

theorem combined_replaces_stored_pair:
  assumes "is_combined f" and "height f = Some h" and "h \<noteq> 0"
    and "map_of qm (quality_key h) = Some (Paired vid aid h' t)"
    and "0 < or0 (tbr f)"
  shows "step formats qm f = Inr (AList.update (quality_key h) (Single f) qm)
    \<and> map_of (AList.update (quality_key h) (Single f) qm) (quality_key h) = Some (Single f)
    \<and> (\<exists>xs ys. mset xs = mset ys \<and> fetch_qualities xs \<noteq> fetch_qualities ys)"
proof -
  from assms have "step formats qm f = Inr (AList.update (quality_key h) (Single f) qm)"
    by (simp add: step_def)
  moreover have "map_of (AList.update (quality_key h) (Single f) qm) (quality_key h)
      = Some (Single f)"
    by (simp add: update_conv')
  moreover have "\<exists>xs ys. mset xs = mset ys \<and> fetch_qualities xs \<noteq> fetch_qualities ys"
    using fetch_qualities_order_matters by blast
  ultimately show ?thesis by simp
qed

theorem combined_replaces_stored_pair_witness:
  "is_combined combined_1080 \<and> height combined_1080 = Some 1080
   \<and> map_of [(''1080p'', Paired ''137'' ''140'' 1080 8000)] (quality_key 1080)
       = Some (Paired ''137'' ''140'' 1080 8000)
   \<and> 0 < or0 (tbr combined_1080)
   \<and> step [video_1080, audio_128, combined_1080]
        [(''1080p'', Paired ''137'' ''140'' 1080 8000)] combined_1080
       = Inr [(''1080p'', Single combined_1080)]"
proof -
  have 1: "is_combined combined_1080" by code_simp
  have 2: "height combined_1080 = Some 1080" by code_simp
  have 3: "(1080::int) \<noteq> 0" by simp
  have 4: "map_of [(''1080p'', Paired ''137'' ''140'' 1080 8000)] (quality_key 1080)
       = Some (Paired ''137'' ''140'' 1080 8000)" by code_simp
  have 5: "0 < or0 (tbr combined_1080)" by code_simp
  have 6: "AList.update (quality_key 1080) (Single combined_1080)
       [(''1080p'', Paired ''137'' ''140'' 1080 8000)] = [(''1080p'', Single combined_1080)]"
    by code_simp
  from combined_replaces_stored_pair [OF 1 2 3 4 5, of "[video_1080, audio_128, combined_1080]"]
  show ?thesis using 1 2 4 5 6 by simp
qed

lemma best_audio_loop_max:
  "best_audio_loop fs b = Some a \<Longrightarrow> (\<forall>x. b = Some x \<longrightarrow> is_audio_only x) \<Longrightarrow>
   is_audio_only a
   \<and> (\<forall>x\<in>set fs. is_audio_only x \<longrightarrow> or0 (abr x) \<le> or0 (abr a))
   \<and> (\<forall>x. b = Some x \<longrightarrow> or0 (abr x) \<le> or0 (abr a))"
proof (induction fs arbitrary: b)
  case Nil
  then show ?case by simp
next
  case (Cons f fs)
  let ?b = "if is_audio_only f then
          (let current_abr = or0 (abr f);
               best_abr = (case b of None \<Rightarrow> 0 | Some b \<Rightarrow> or0 (abr b))
           in if b = None \<or> current_abr > best_abr then Some f else b)
        else b"
  from Cons.prems(1) have l: "best_audio_loop fs ?b = Some a" by simp
  from Cons.prems(2) have ok: "\<forall>x. ?b = Some x \<longrightarrow> is_audio_only x"
    by (auto simp: Let_def)
  from Cons.IH [OF l ok]
  have a: "is_audio_only a"
    and r: "\<forall>x\<in>set fs. is_audio_only x \<longrightarrow> or0 (abr x) \<le> or0 (abr a)"
    and n: "\<forall>x. ?b = Some x \<longrightarrow> or0 (abr x) \<le> or0 (abr a)"
    by blast+
  from n have "is_audio_only f \<longrightarrow> or0 (abr f) \<le> or0 (abr a)"
    by (cases b) (auto simp: Let_def split: if_splits)
  moreover from n have "\<forall>x. b = Some x \<longrightarrow> or0 (abr x) \<le> or0 (abr a)"
    by (cases b) (auto simp: Let_def split: if_splits)
  ultimately show ?case using a r by simp
qed

lemma best_audio_loop_None:
  "best_audio_loop fs b = None \<longleftrightarrow> b = None \<and> (\<forall>x\<in>set fs. \<not> is_audio_only x)"
  by (induction fs arbitrary: b) (auto simp: Let_def)

lemma find_best_audio_None:
  "find_best_audio fs = None \<longleftrightarrow> (\<forall>x\<in>set fs. \<not> is_audio_only x)"
  by (simp add: find_best_audio_def best_audio_loop_None)

lemma find_best_audio_max:
  assumes "find_best_audio fs = Some a"
  shows "a \<in> set fs \<and> is_audio_only a
    \<and> (\<forall>x\<in>set fs. is_audio_only x \<longrightarrow> or0 (abr x) \<le> or0 (abr a))"
  using assms best_audio_loop_max [of fs None a] find_best_audio_mem [OF assms]
  by (simp add: find_best_audio_def)

lemma step_no_audio:
  "find_best_audio formats = None \<Longrightarrow> \<exists>qm'. step formats qm f = Inr qm'"
  by (simp add: step_def Let_def split: option.splits)

lemma process_formats_no_audio:
  "find_best_audio formats = None \<Longrightarrow> \<exists>qm'. process_formats formats fs qm = Inr qm'"
proof (induction fs arbitrary: qm)
  case Nil
  then show ?case by simp
next
  case (Cons f fs)
  from step_no_audio [OF Cons.prems] obtain qm1 where "step formats qm f = Inr qm1"
    by blast
  with Cons.IH [OF Cons.prems, of qm1] show ?case by simp
qed

lemma fetch_qualities_source:
  assumes "fetch_qualities formats = Inr opts" and "kv \<in> set opts"
  shows "entry_source formats (snd kv)"
proof -
  from assms(1) obtain qm where p: "process_formats formats formats [] = Inr qm"
    and o: "opts = sort_qualities qm"
    by (rule fetch_qualities_Inr)
  from process_formats_source [OF p] have "\<forall>kv\<in>set qm. entry_source formats (snd kv)"
    by simp
  with o assms(2) show ?thesis by simp
qed

text \<open>
  C8. Without an audio-only descriptor \<open>fetch_qualities\<close> returns, and every option it
  returns is a combined descriptor of the list: video-only descriptors give none. The
  audio descriptor that is paired is an audio-only descriptor of the list whose audio
  bit rate (0 when absent) is greatest, it exists whenever the list has an audio-only
  descriptor, and every paired option carries its format id.
\<close>

theorem video_only_needs_best_audio:
  "((\<forall>f\<in>set formats. \<not> is_audio_only f) \<longrightarrow>
      (\<exists>opts. fetch_qualities formats = Inr opts
         \<and> (\<forall>kv\<in>set opts. \<exists>f\<in>set formats. snd kv = Single f \<and> is_combined f)))
   \<and> (\<forall>a. find_best_audio formats = Some a \<longrightarrow>
         a \<in> set formats \<and> is_audio_only a
         \<and> (\<forall>b\<in>set formats. is_audio_only b \<longrightarrow> or0 (abr b) \<le> or0 (abr a)))
   \<and> ((\<exists>b\<in>set formats. is_audio_only b) \<longrightarrow> find_best_audio formats \<noteq> None)
   \<and> (\<forall>opts k vid aid h t.
         fetch_qualities formats = Inr opts \<and> (k, Paired vid aid h t) \<in> set opts \<longrightarrow>
         (\<exists>a. find_best_audio formats = Some a \<and> format_id a = Some aid))"
proof -
  have 1: "\<exists>opts. fetch_qualities formats = Inr opts
         \<and> (\<forall>kv\<in>set opts. \<exists>f\<in>set formats. snd kv = Single f \<and> is_combined f)"
    if none: "\<forall>f\<in>set formats. \<not> is_audio_only f"
  proof -
    from none have nb: "find_best_audio formats = None" by (simp add: find_best_audio_None)
    from process_formats_no_audio [OF nb] obtain qm
      where "process_formats formats formats [] = Inr qm" by blast
    then have f: "fetch_qualities formats = Inr (sort_qualities qm)"
      by (simp add: fetch_qualities_def)
    have "\<forall>kv\<in>set (sort_qualities qm). \<exists>f\<in>set formats. snd kv = Single f \<and> is_combined f"
    proof
      fix kv assume "kv \<in> set (sort_qualities qm)"
      from fetch_qualities_source [OF f this] nb
      show "\<exists>f\<in>set formats. snd kv = Single f \<and> is_combined f"
        by (cases "snd kv") auto
    qed
    with f show ?thesis by blast
  qed
  have 2: "a \<in> set formats \<and> is_audio_only a
         \<and> (\<forall>b\<in>set formats. is_audio_only b \<longrightarrow> or0 (abr b) \<le> or0 (abr a))"
    if "find_best_audio formats = Some a" for a
    using that by (rule find_best_audio_max)
  have 3: "find_best_audio formats \<noteq> None" if "\<exists>b\<in>set formats. is_audio_only b"
    using that by (simp add: find_best_audio_None)
  have 4: "\<exists>a. find_best_audio formats = Some a \<and> format_id a = Some aid"
    if "fetch_qualities formats = Inr opts \<and> (k, Paired vid aid h t) \<in> set opts"
    for opts k vid aid h t
  proof -
    from that have "entry_source formats (snd (k, Paired vid aid h t))"
      using fetch_qualities_source by blast
    then show ?thesis by auto
  qed
  from 1 2 3 4 show ?thesis by blast
qed

theorem video_only_needs_best_audio_witness:
  "\<not> is_audio_only video_1080 \<and> \<not> is_audio_only combined_720
   \<and> fetch_qualities [video_1080, combined_720] = Inr [(''720p'', Single combined_720)]
   \<and> find_best_audio [audio_unrated, audio_48, video_1080, audio_128] = Some audio_128
   \<and> is_audio_only audio_unrated \<and> or0 (abr audio_unrated) = 0
   \<and> or0 (abr audio_unrated) \<le> or0 (abr audio_128)
   \<and> or0 (abr audio_48) \<le> or0 (abr audio_128)
   \<and> fetch_qualities [audio_unrated, audio_48, video_1080, audio_128]
       = Inr [(''1080p'', Paired ''137'' ''140'' 1080 8000)]
   \<and> format_id audio_128 = Some ''140''"
proof -
  have n: "\<not> is_audio_only video_1080 \<and> \<not> is_audio_only combined_720" by code_simp
  have b: "find_best_audio [audio_unrated, audio_48, video_1080, audio_128] = Some audio_128"
    by code_simp
  have ua: "is_audio_only audio_unrated" and ub: "is_audio_only audio_48" by code_simp+
  have z: "or0 (abr audio_unrated) = 0" by code_simp
  have r: "fetch_qualities [audio_unrated, audio_48, video_1080, audio_128]
       = Inr [(''1080p'', Paired ''137'' ''140'' 1080 8000)]" by code_simp
  have i: "format_id audio_128 = Some ''140''" by code_simp
  from video_only_needs_best_audio [of "[video_1080, combined_720]"] n
  obtain opts where o: "fetch_qualities [video_1080, combined_720] = Inr opts"
    and s: "\<forall>kv\<in>set opts. \<exists>f\<in>set [video_1080, combined_720]. snd kv = Single f \<and> is_combined f"
    by auto
  have "fetch_qualities [video_1080, combined_720] = Inr [(''720p'', Single combined_720)]"
    by code_simp
  with o have e: "fetch_qualities [video_1080, combined_720] = Inr [(''720p'', Single combined_720)]"
    by simp
  from video_only_needs_best_audio [of "[audio_unrated, audio_48, video_1080, audio_128]"] b ua ub
  have "or0 (abr audio_unrated) \<le> or0 (abr audio_128)
    \<and> or0 (abr audio_48) \<le> or0 (abr audio_128)"
    by auto
  with n e b ua z r i show ?thesis by simp
qed

section \<open>Properties of \<open>download_video\<close>\<close>

lemma fetch_qualities_single_combined:
  assumes "is_combined g" and "height g = Some h" and "h \<noteq> 0"
  shows "fetch_qualities [g] = Inr [(quality_key h, Single g)]"
  using assms by (simp add: fetch_qualities_def step_def sort_qualities_def)

lemma quality_key_720: "quality_key 720 = ''720p''"
  by code_simp

text \<open>
  C9. The selector is the format id of a stored descriptor and
  \<open>video_format_id+audio_format_id\<close> of a stored pair, and it is the argument after
  \<open>-f\<close> of the download command. A list that holds one combined descriptor of height
  720 and bit rate 2000 gives exactly one option, labelled \<open>720p\<close>, which is that
  descriptor.
\<close>

theorem format_selector_single_and_paired:
  "(format_id f = Some i \<longrightarrow> format_selector (Single f) = Inr i)
   \<and> format_selector (Paired vid aid h t) = Inr (vid @ ''+'' @ aid)
   \<and> (map_of (formats_data s) (quality_var s) = Some e \<and> format_selector e = Inr sel \<longrightarrow>
        download_cmd U s out
          = Inr [ustr ''yt-dlp'', ustr ''-f'', ustr sel, ustr ''--merge-output-format'',
                 ustr ''mp4'', ustr ''-o'', out, strip U (url_var s)])
   \<and> (is_combined g \<and> height g = Some 720 \<and> tbr g = Some 2000 \<longrightarrow>
        fetch_qualities [g] = Inr [(''720p'', Single g)])"
proof -
  have "fetch_qualities [g] = Inr [(''720p'', Single g)]"
    if "is_combined g \<and> height g = Some 720 \<and> tbr g = Some 2000"
    using that fetch_qualities_single_combined [of g 720] by (simp add: quality_key_720)
  then show ?thesis
    by (simp add: format_selector_def download_cmd_def)
qed

theorem format_selector_single_and_paired_witness:
  "format_id combined_720 = Some ''18''
   \<and> format_selector (Single combined_720) = Inr ''18''
   \<and> format_selector (Paired ''137'' ''140'' 1080 8000) = Inr ''137+140''
   \<and> map_of (formats_data session_720) (quality_var session_720) = Some (Single combined_720)
   \<and> download_cmd unicode_14 session_720 (ustr ''Videos/%(title)s.%(ext)s'')
       = Inr (map ustr [''yt-dlp'', ''-f'', ''18'', ''--merge-output-format'', ''mp4'', ''-o'',
              ''Videos/%(title)s.%(ext)s'', ''https://example.org/v''])
   \<and> is_combined combined_720 \<and> height combined_720 = Some 720
   \<and> tbr combined_720 = Some 2000
   \<and> fetch_qualities [combined_720] = Inr [(''720p'', Single combined_720)]"
proof -
  have 1: "format_id combined_720 = Some ''18''" by code_simp
  have 2: "map_of (formats_data session_720) (quality_var session_720)
     = Some (Single combined_720)" by code_simp
  have 3: "is_combined combined_720 \<and> height combined_720 = Some 720
     \<and> tbr combined_720 = Some 2000" by code_simp
  have 4: "strip unicode_14 (url_var session_720) = ustr ''https://example.org/v''"
    by code_simp
  note t = format_selector_single_and_paired [of combined_720 "''18''" "''137''" "''140''"
      1080 8000 session_720 "Single combined_720" "''18''" unicode_14
      "ustr ''Videos/%(title)s.%(ext)s''" combined_720]
  from t 1 have 5: "format_selector (Single combined_720) = Inr ''18''" by blast
  from t have 6: "format_selector (Paired ''137'' ''140'' 1080 8000) = Inr ''137+140''"
    by simp
  from t 2 5 4 have 7: "download_cmd unicode_14 session_720 (ustr ''Videos/%(title)s.%(ext)s'')
       = Inr (map ustr [''yt-dlp'', ''-f'', ''18'', ''--merge-output-format'', ''mp4'', ''-o'',
              ''Videos/%(title)s.%(ext)s'', ''https://example.org/v''])" by simp
  from t 3 have 8: "fetch_qualities [combined_720] = Inr [(''720p'', Single combined_720)]"
    by blast
  from 1 2 3 5 6 7 8 show ?thesis by simp
qed

text \<open>
  C10, as claimed: a request made while a download is active is reported as already
  in progress. The first guard of \<open>download_video\<close> comes before the test of the thread:
  with an empty URL the request is answered by the warning about the missing input.
\<close>

theorem busy_request_without_url_not_reported_in_progress:
  "download_thread busy_no_url = Some True
   \<and> fst (download_video busy_no_url)
       = Rejected (Show_Warning ''Warning'' ''Please select a quality and enter URL!'')
   \<and> fst (download_video busy_no_url)
       \<noteq> Rejected (Show_Info ''Info'' ''Download already in progress!'')"
  by (simp add: download_video_def busy_no_url_def)

text \<open>
  C10, amended. A request made while the download thread is alive starts nothing and
  leaves the whole state as it was. It is reported as already in progress when a
  quality is selected and the URL is not empty, and by the warning about the missing
  input otherwise.
\<close>

theorem busy_request_rejected:
  assumes "download_thread s = Some True"
  shows "snd (download_video s) = s
    \<and> fst (download_video s) \<noteq> Started
    \<and> (quality_var s \<noteq> [] \<and> url_var s \<noteq> [] \<longrightarrow>
         fst (download_video s) = Rejected (Show_Info ''Info'' ''Download already in progress!''))
    \<and> (quality_var s = [] \<or> url_var s = [] \<longrightarrow>
         fst (download_video s)
           = Rejected (Show_Warning ''Warning'' ''Please select a quality and enter URL!''))"
  using assms by (simp add: download_video_def)

theorem busy_request_rejected_witness:
  "download_thread busy_720 = Some True
   \<and> quality_var busy_720 \<noteq> [] \<and> url_var busy_720 \<noteq> []
   \<and> download_video busy_720
       = (Rejected (Show_Info ''Info'' ''Download already in progress!''), busy_720)
   \<and> download_thread busy_no_url = Some True \<and> url_var busy_no_url = []
   \<and> download_video busy_no_url
       = (Rejected (Show_Warning ''Warning'' ''Please select a quality and enter URL!''),
          busy_no_url)"
proof -
  have a: "download_thread busy_720 = Some True" by (simp add: busy_720_def)
  have b: "quality_var busy_720 \<noteq> [] \<and> url_var busy_720 \<noteq> []"
    by (simp add: busy_720_def ustr_def)
  have c: "download_thread busy_no_url = Some True" by (simp add: busy_no_url_def)
  have d: "url_var busy_no_url = []" by (simp add: busy_no_url_def)
  from busy_request_rejected [OF a] b
  have "download_video busy_720
       = (Rejected (Show_Info ''Info'' ''Download already in progress!''), busy_720)"
    by (simp add: prod_eq_iff)
  moreover from busy_request_rejected [OF c] d
  have "download_video busy_no_url
       = (Rejected (Show_Warning ''Warning'' ''Please select a quality and enter URL!''),
          busy_no_url)"
    by (simp add: prod_eq_iff)
  ultimately show ?thesis using a b c d by simp
qed

section \<open>Properties of the progress lines\<close>

text \<open>In the lemmas, 37 is the percent sign and 46 is the full stop.\<close>

lemma unicode_tables_14: "unicode_tables unicode_14"
proof -
  have d: "decimal unicode_14 c = ascii_decimal c" if "c < 128" for c
    using that by (simp add: unicode_14_def zero_digits_def ascii_decimal_def)
  have s: "isspace unicode_14 c = ascii_space c" if "c < 128" for c
    using that by (auto simp: unicode_14_def white_space_def ascii_space_def)
  have "\<forall>c\<in>set white_space. decimal unicode_14 c = None" by code_simp
  then have "decimal unicode_14 c = None" if "isspace unicode_14 c" for c
    using that by (simp add: unicode_14_def)
  with d s show ?thesis by (simp add: unicode_tables_def)
qed

lemma tables_decimal:
  "unicode_tables U \<Longrightarrow> 0 \<le> c \<Longrightarrow> c < 128 \<Longrightarrow> decimal U c = ascii_decimal c"
  by (simp add: unicode_tables_def)

lemma tables_isspace:
  "unicode_tables U \<Longrightarrow> 0 \<le> c \<Longrightarrow> c < 128 \<Longrightarrow> isspace U c = ascii_space c"
  by (simp add: unicode_tables_def)

lemma not_digit_percent: "unicode_tables U \<Longrightarrow> \<not> is_digit U 37"
  by (simp add: is_digit_def tables_decimal ascii_decimal_def)

lemma not_digit_dot: "unicode_tables U \<Longrightarrow> \<not> is_digit U 46"
  by (simp add: is_digit_def tables_decimal ascii_decimal_def)

lemma not_digit_space: "unicode_tables U \<Longrightarrow> isspace U c \<Longrightarrow> \<not> is_digit U c"
  by (simp add: unicode_tables_def is_digit_def)

lemma not_space_percent: "unicode_tables U \<Longrightarrow> \<not> isspace U 37"
  by (simp add: tables_isspace ascii_space_def)

lemma numeric_iff:
  assumes T: "unicode_tables U"
  shows "numeric U g \<longleftrightarrow>
     (\<exists>ds. ds \<noteq> [] \<and> (\<forall>c\<in>set ds. is_digit U c)
        \<and> (g = ds \<or> (\<exists>fs. (\<forall>c\<in>set fs. is_digit U c) \<and> g = ds @ 46 # fs)))"
  (is "?l \<longleftrightarrow> ?r")
proof
  assume l: ?l
  let ?ds = "takeWhile (is_digit U) g"
  from l have ne: "?ds \<noteq> []" by (simp add: numeric_def)
  have dg: "\<forall>c\<in>set ?ds. is_digit U c" by (auto dest: set_takeWhileD)
  show ?r
  proof (cases "dropWhile (is_digit U) g")
    case Nil
    then have "g = ?ds" by (metis append_Nil2 takeWhile_dropWhile_id)
    with ne dg show ?thesis by blast
  next
    case (Cons c fs)
    with l have c: "c = 46" and fs: "\<forall>c\<in>set fs. is_digit U c"
      by (simp_all add: numeric_def list_all_iff)
    have "g = ?ds @ dropWhile (is_digit U) g" by simp
    with Cons c have "g = ?ds @ 46 # fs" by simp
    with ne dg fs show ?thesis by blast
  qed
next
  assume ?r
  then obtain ds where ne: "ds \<noteq> []" and dg: "\<forall>c\<in>set ds. is_digit U c"
    and g: "g = ds \<or> (\<exists>fs. (\<forall>c\<in>set fs. is_digit U c) \<and> g = ds @ 46 # fs)"
    by blast
  from g show ?l
  proof
    assume "g = ds"
    from dg have tw: "takeWhile (is_digit U) ds = ds" and dw: "dropWhile (is_digit U) ds = []"
      by simp_all
    from ne show ?thesis unfolding numeric_def \<open>g = ds\<close> tw dw by simp
  next
    assume "\<exists>fs. (\<forall>c\<in>set fs. is_digit U c) \<and> g = ds @ 46 # fs"
    then obtain fs where fs: "\<forall>c\<in>set fs. is_digit U c" and e: "g = ds @ 46 # fs"
      by blast
    from dg not_digit_dot [OF T]
    have "takeWhile (is_digit U) g = ds" "dropWhile (is_digit U) g = 46 # fs"
      unfolding e by simp_all
    with ne fs show ?thesis by (simp add: numeric_def list_all_iff)
  qed
qed

lemma match_percent_digits:
  assumes T: "unicode_tables U" and "ds \<noteq> []" and "\<forall>c\<in>set ds. is_digit U c"
  shows "match_percent U (ds @ 37 # post) = Some ds"
proof -
  from assms(3) not_digit_percent [OF T]
  have "takeWhile (is_digit U) (ds @ 37 # post) = ds"
    and "dropWhile (is_digit U) (ds @ 37 # post) = 37 # post"
    by simp_all
  with assms(2) show ?thesis by (simp add: match_percent_def)
qed

lemma match_percent_fraction:
  assumes T: "unicode_tables U" and "ds \<noteq> []" and "\<forall>c\<in>set ds. is_digit U c"
    and "\<forall>c\<in>set fs. is_digit U c"
  shows "match_percent U (ds @ 46 # fs @ 37 # post) = Some (ds @ 46 # fs)"
proof -
  from assms(3) not_digit_dot [OF T]
  have "takeWhile (is_digit U) (ds @ 46 # fs @ 37 # post) = ds"
    and "dropWhile (is_digit U) (ds @ 46 # fs @ 37 # post) = 46 # fs @ 37 # post"
    by simp_all
  moreover from assms(4) not_digit_percent [OF T]
  have "takeWhile (is_digit U) (fs @ 37 # post) = fs"
    and "dropWhile (is_digit U) (fs @ 37 # post) = 37 # post"
    by simp_all
  ultimately show ?thesis using assms(2) by (simp add: match_percent_def)
qed

lemma match_percent_complete:
  assumes T: "unicode_tables U" and "numeric U g"
  shows "match_percent U (g @ 37 # post) = Some g"
proof -
  from assms obtain ds where ne: "ds \<noteq> []" and dg: "\<forall>c\<in>set ds. is_digit U c"
    and g: "g = ds \<or> (\<exists>fs. (\<forall>c\<in>set fs. is_digit U c) \<and> g = ds @ 46 # fs)"
    unfolding numeric_iff [OF T] by blast
  from g show ?thesis
  proof
    assume "g = ds"
    with match_percent_digits [OF T ne dg] show ?thesis by simp
  next
    assume "\<exists>fs. (\<forall>c\<in>set fs. is_digit U c) \<and> g = ds @ 46 # fs"
    then obtain fs where "\<forall>c\<in>set fs. is_digit U c" and "g = ds @ 46 # fs" by blast
    with match_percent_fraction [OF T ne dg, of fs post] show ?thesis by simp
  qed
qed

lemma match_percent_sound:
  assumes T: "unicode_tables U" and m: "match_percent U s = Some g"
  shows "numeric U g \<and> (\<exists>post. s = g @ 37 # post)"
proof -
  let ?ds = "takeWhile (is_digit U) s"
  let ?r = "dropWhile (is_digit U) s"
  have s: "s = ?ds @ ?r" by simp
  have dg: "\<forall>c\<in>set ?ds. is_digit U c" by (auto dest: set_takeWhileD)
  from m have ne: "?ds \<noteq> []"
    by (auto simp: match_percent_def Let_def split: if_splits)
  from m ne obtain c r' where r: "?r = c # r'"
    by (cases ?r) (auto simp: match_percent_def Let_def)
  show ?thesis
  proof (cases "c = 37")
    case True
    with m ne r have "g = ?ds" by (simp add: match_percent_def Let_def)
    moreover from s r True have "s = ?ds @ 37 # r'" by simp
    ultimately show ?thesis using ne dg numeric_iff [OF T] by metis
  next
    case False
    let ?fs = "takeWhile (is_digit U) r'"
    let ?r2 = "dropWhile (is_digit U) r'"
    from m ne r False have dot: "c = 46"
      by (auto simp: match_percent_def Let_def split: if_splits)
    from m ne r dot obtain d r3 where r2: "?r2 = d # r3"
      by (cases ?r2) (auto simp: match_percent_def Let_def)
    from m ne r dot r2 have d: "d = 37" and g: "g = ?ds @ 46 # ?fs"
      by (auto simp: match_percent_def Let_def split: if_splits)
    have fs: "\<forall>c\<in>set ?fs. is_digit U c" by (auto dest: set_takeWhileD)
    have "r' = ?fs @ ?r2" by simp
    with r2 d have "r' = ?fs @ 37 # r3" by simp
    with s r dot have "s = ?ds @ 46 # ?fs @ 37 # r3" by simp
    with g have "s = g @ 37 # r3" by simp
    moreover from g ne dg fs have "numeric U g" unfolding numeric_iff [OF T] by blast
    ultimately show ?thesis by blast
  qed
qed

lemma re_search_None_iff:
  assumes T: "unicode_tables U"
  shows "re_search U s = None \<longleftrightarrow> (\<forall>pre g post. s = pre @ g @ 37 # post \<longrightarrow> \<not> numeric U g)"
proof (induction s)
  case Nil
  then show ?case by simp
next
  case (Cons c cs)
  show ?case
  proof
    assume n: "re_search U (c # cs) = None"
    then have m: "match_percent U (c # cs) = None" and r: "re_search U cs = None"
      by (auto split: option.splits)
    show "\<forall>pre g post. c # cs = pre @ g @ 37 # post \<longrightarrow> \<not> numeric U g"
    proof (intro allI impI)
      fix pre g post
      assume e: "c # cs = pre @ g @ 37 # post"
      show "\<not> numeric U g"
      proof (cases pre)
        case Nil
        with e m match_percent_complete [OF T, of g post] show ?thesis by auto
      next
        case (Cons a pre')
        with e have "cs = pre' @ g @ 37 # post" by simp
        with r Cons.IH show ?thesis by blast
      qed
    qed
  next
    assume a: "\<forall>pre g post. c # cs = pre @ g @ 37 # post \<longrightarrow> \<not> numeric U g"
    have "match_percent U (c # cs) = None"
    proof (cases "match_percent U (c # cs)")
      case None
      then show ?thesis .
    next
      case (Some g)
      from match_percent_sound [OF T Some] a [rule_format, of "[]" g]
      show ?thesis by auto
    qed
    moreover have "re_search U cs = None"
    proof -
      have "\<forall>pre g post. cs = pre @ g @ 37 # post \<longrightarrow> \<not> numeric U g"
      proof (intro allI impI)
        fix pre g post assume "cs = pre @ g @ 37 # post"
        then have "c # cs = (c # pre) @ g @ 37 # post" by simp
        with a show "\<not> numeric U g" by blast
      qed
      with Cons.IH show ?thesis by simp
    qed
    ultimately show "re_search U (c # cs) = None" by simp
  qed
qed

lemma re_search_leftmost:
  assumes T: "unicode_tables U"
  shows "re_search U s = Some g \<Longrightarrow>
   \<exists>pre post. s = pre @ g @ 37 # post \<and> numeric U g
     \<and> (\<forall>pre' g' post'. s = pre' @ g' @ 37 # post' \<and> numeric U g'
           \<longrightarrow> length pre \<le> length pre')"
proof (induction s)
  case Nil
  then show ?case by simp
next
  case (Cons c cs)
  show ?case
  proof (cases "match_percent U (c # cs)")
    case (Some g')
    with Cons.prems have "g' = g" by simp
    with match_percent_sound [OF T Some] obtain post
      where "c # cs = [] @ g @ 37 # post" and "numeric U g" by auto
    then show ?thesis by (intro exI [of _ "[]"] exI [of _ post]) simp
  next
    case None
    with Cons.prems have "re_search U cs = Some g" by simp
    from Cons.IH [OF this] obtain pre post where e: "cs = pre @ g @ 37 # post"
      and n: "numeric U g"
      and m: "\<forall>pre' g' post'. cs = pre' @ g' @ 37 # post' \<and> numeric U g'
           \<longrightarrow> length pre \<le> length pre'"
      by blast
    have "\<forall>pre' g' post'. c # cs = pre' @ g' @ 37 # post' \<and> numeric U g'
           \<longrightarrow> length (c # pre) \<le> length pre'"
    proof (intro allI impI)
      fix pre' g' post'
      assume a: "c # cs = pre' @ g' @ 37 # post' \<and> numeric U g'"
      show "length (c # pre) \<le> length pre'"
      proof (cases pre')
        case Nil
        with a None match_percent_complete [OF T, of g' post'] show ?thesis by auto
      next
        case (Cons x p)
        with a have "cs = p @ g' @ 37 # post' \<and> numeric U g'" by simp
        with m have "length pre \<le> length p" by blast
        with Cons show ?thesis by simp
      qed
    qed
    moreover from e have "c # cs = (c # pre) @ g @ 37 # post" by simp
    ultimately show ?thesis using n by blast
  qed
qed

lemma match_percent_not_digit: "\<not> is_digit U c \<Longrightarrow> match_percent U (c # cs) = None"
  by (simp add: match_percent_def)

lemma re_search_dropWhile_space:
  "unicode_tables U \<Longrightarrow> re_search U (dropWhile (isspace U) s) = re_search U s"
  by (induction s) (simp_all add: match_percent_not_digit not_digit_space)

lemma re_search_all_space:
  "unicode_tables U \<Longrightarrow> \<forall>c\<in>set w. isspace U c \<Longrightarrow> re_search U w = None"
  by (induction w) (simp_all add: match_percent_not_digit not_digit_space)

lemma match_percent_append_space:
  assumes T: "unicode_tables U" and w: "\<forall>c\<in>set w. isspace U c"
  shows "match_percent U (s @ w) = match_percent U s"
proof (cases "match_percent U s")
  case (Some g)
  from match_percent_sound [OF T Some] obtain post
    where "numeric U g" and "s = g @ 37 # post"
    by blast
  with match_percent_complete [OF T, of g "post @ w"] Some show ?thesis by simp
next
  case None
  show ?thesis
  proof (cases "match_percent U (s @ w)")
    case None
    with \<open>match_percent U s = None\<close> show ?thesis by simp
  next
    case (Some g)
    from match_percent_sound [OF T Some] obtain post where n: "numeric U g"
      and e: "s @ w = g @ 37 # post"
      by blast
    have "\<exists>post'. s = g @ 37 # post'"
    proof (cases "length (g @ [37]) \<le> length s")
      case True
      from e have "s @ w = (g @ [37]) @ post" by simp
      with True obtain post' where "s = (g @ [37]) @ post'"
        by (metis append_eq_append_conv_if append_take_drop_id)
      then show ?thesis by simp
    next
      case False
      from e have "(s @ w) ! length g = 37" by (simp add: nth_append)
      moreover from False have "length s \<le> length g" by simp
      moreover from e have "length g < length (s @ w)" by simp
      ultimately have "w ! (length g - length s) = 37" "length g - length s < length w"
        by (auto simp: nth_append)
      with w have "isspace U 37" by (metis nth_mem)
      with not_space_percent [OF T] show ?thesis by simp
    qed
    then obtain post' where "s = g @ 37 # post'" by blast
    with match_percent_complete [OF T n, of post'] None show ?thesis by simp
  qed
qed

lemma re_search_append_space:
  assumes T: "unicode_tables U" and w: "\<forall>c\<in>set w. isspace U c"
  shows "re_search U (s @ w) = re_search U s"
proof (induction s)
  case Nil
  from T w show ?case by (simp add: re_search_all_space)
next
  case (Cons c cs)
  from match_percent_append_space [OF T w, of "c # cs"] Cons.IH
  show ?case by (simp split: option.splits)
qed

lemma strip_split:
  "dropWhile (isspace U) s
     = strip U s @ rev (takeWhile (isspace U) (rev (dropWhile (isspace U) s)))"
proof -
  let ?t = "dropWhile (isspace U) s"
  have "rev (takeWhile (isspace U) (rev ?t) @ dropWhile (isspace U) (rev ?t)) = ?t"
    by (simp only: takeWhile_dropWhile_id rev_rev_ident)
  then show ?thesis by (simp only: rev_append strip_def)
qed

lemma re_search_strip:
  assumes T: "unicode_tables U"
  shows "re_search U (strip U s) = re_search U s"
proof -
  let ?w = "rev (takeWhile (isspace U) (rev (dropWhile (isspace U) s)))"
  have "\<forall>c\<in>set ?w. isspace U c" by (auto dest: set_takeWhileD)
  with T have "re_search U (strip U s @ ?w) = re_search U (strip U s)"
    by (rule re_search_append_space)
  with strip_split [of U s]
  have "re_search U (dropWhile (isspace U) s) = re_search U (strip U s)"
    by simp
  with T show ?thesis by (simp add: re_search_dropWhile_space)
qed

lemma sublist_dropWhile_space:
  assumes "m \<noteq> []" and "\<not> isspace U (hd m)"
  shows "sublist m (dropWhile (isspace U) s) \<longleftrightarrow> sublist m s"
proof (induction s)
  case Nil
  then show ?case by simp
next
  case (Cons c cs)
  show ?case
  proof (cases "isspace U c")
    case True
    with assms have "\<not> prefix m (c # cs)" by (cases m) auto
    with True Cons.IH show ?thesis by (simp add: sublist_Cons_right)
  next
    case False
    then show ?thesis by simp
  qed
qed

lemma sublist_strip:
  assumes "m \<noteq> []" and "\<not> isspace U (hd m)" and "\<not> isspace U (last m)"
  shows "sublist m (strip U s) \<longleftrightarrow> sublist m s"
proof -
  from assms have r: "rev m \<noteq> []" "\<not> isspace U (hd (rev m))" by (simp_all add: hd_rev)
  have "sublist m (strip U s)
      \<longleftrightarrow> sublist (rev m) (dropWhile (isspace U) (rev (dropWhile (isspace U) s)))"
    unfolding strip_def by (simp add: sublist_rev_right)
  also have "\<dots> \<longleftrightarrow> sublist (rev m) (rev (dropWhile (isspace U) s))"
    using r by (rule sublist_dropWhile_space)
  also have "\<dots> \<longleftrightarrow> sublist m (dropWhile (isspace U) s)" by simp
  also have "\<dots> \<longleftrightarrow> sublist m s" using assms(1,2) by (rule sublist_dropWhile_space)
  finally show ?thesis .
qed

lemma extract_progress_unstripped:
  assumes T: "unicode_tables U"
  shows "extract_progress U line =
     (if sublist (ustr ''[download]'') line \<and> sublist (ustr ''%'') line then
        (case re_search U line of
           None \<Rightarrow> None
         | Some g \<Rightarrow> Some (Downloading (float_of_decimal U g)))
      else if sublist (ustr ''Merging formats'') line then Some Merging
      else None)"
proof -
  have "sublist (ustr ''[download]'') (strip U line) \<longleftrightarrow> sublist (ustr ''[download]'') line"
    by (rule sublist_strip) (simp_all add: ustr_def tables_isspace [OF T] ascii_space_def)
  moreover have "sublist (ustr ''%'') (strip U line) \<longleftrightarrow> sublist (ustr ''%'') line"
    by (rule sublist_strip) (simp_all add: ustr_def tables_isspace [OF T] ascii_space_def)
  moreover have "sublist (ustr ''Merging formats'') (strip U line)
      \<longleftrightarrow> sublist (ustr ''Merging formats'') line"
    by (rule sublist_strip) (simp_all add: ustr_def tables_isspace [OF T] ascii_space_def)
  ultimately show ?thesis
    by (simp add: extract_progress_def Let_def re_search_strip [OF T])
qed

lemma float_of_decimal_nonneg: "0 \<le> float_of_decimal U g"
  by (simp add: float_of_decimal_def Let_def)

text \<open>
  The two destination lines: the digits before the first percent sign are decimal
  digits of the tables, and the line is reported with their value.
\<close>

lemma fullwidth_line_parsed:
  "extract_progress unicode_14 fullwidth_line = Some (Downloading 50)"
  by code_simp

lemma arabic_indic_line_parsed:
  "extract_progress unicode_14 arabic_indic_line = Some (Downloading 50)"
  by code_simp

text \<open>
  C5. A line that contains \<open>[download]\<close> and a numeric value followed by a percent
  sign is reported as downloading, with the value of the leftmost such numeric value
  as its percentage; the line \<open>[download]  45.3% of 10MiB\<close> gives 45.3. The digits are
  the decimal digits of the interpreter's tables.
\<close>

theorem extract_progress_downloading:
  assumes "unicode_tables U"
    and "sublist (ustr ''[download]'') line"
    and "line = pre @ g @ ustr ''%'' @ post" and "numeric U g"
  shows "(\<exists>pre0 g0 post0. line = pre0 @ g0 @ ustr ''%'' @ post0 \<and> numeric U g0
            \<and> (\<forall>pre' g' post'. line = pre' @ g' @ ustr ''%'' @ post' \<and> numeric U g'
                  \<longrightarrow> length pre0 \<le> length pre')
            \<and> extract_progress U line = Some (Downloading (float_of_decimal U g0)))
    \<and> extract_progress U (ustr ''[download]  45.3% of 10MiB'') = Some (Downloading (453 / 10))"
proof -
  note T = assms(1)
  have pct: "ustr ''%'' = [37]" by (simp add: ustr_def)
  from assms(3) have "line = (pre @ g) @ ustr ''%'' @ post" by simp
  then have pc: "sublist (ustr ''%'') line" unfolding sublist_def by blast
  from assms(3,4) have "re_search U line \<noteq> None"
    unfolding re_search_None_iff [OF T] pct by auto
  then obtain g0 where r: "re_search U line = Some g0" by blast
  from re_search_leftmost [OF T r] obtain pre0 post0
    where "line = pre0 @ g0 @ ustr ''%'' @ post0" and "numeric U g0"
      and "\<forall>pre' g' post'. line = pre' @ g' @ ustr ''%'' @ post' \<and> numeric U g'
                  \<longrightarrow> length pre0 \<le> length pre'"
    unfolding pct by auto
  moreover from assms(2) pc r
  have "extract_progress U line = Some (Downloading (float_of_decimal U g0))"
    by (simp add: extract_progress_unstripped [OF T])
  ultimately have "\<exists>pre0 g0 post0. line = pre0 @ g0 @ ustr ''%'' @ post0 \<and> numeric U g0
            \<and> (\<forall>pre' g' post'. line = pre' @ g' @ ustr ''%'' @ post' \<and> numeric U g'
                  \<longrightarrow> length pre0 \<le> length pre')
            \<and> extract_progress U line = Some (Downloading (float_of_decimal U g0))"
    by blast
  moreover have "extract_progress U (ustr ''[download]  45.3% of 10MiB'')
      = Some (Downloading (453 / 10))"
    by (simp add: extract_progress_unstripped [OF T] ustr_def sublist_code match_percent_def
        is_digit_def tables_decimal [OF T] ascii_decimal_def float_of_decimal_def
        nat_of_digits_def digit_val_def)
  ultimately show ?thesis by blast
qed

theorem extract_progress_downloading_witness:
  "unicode_tables unicode_14
   \<and> sublist (ustr ''[download]'') fullwidth_line
   \<and> fullwidth_line
       = ustr ''[download] Destination: '' @ [0xFF15, 0xFF10] @ ustr ''%'' @ ustr '' 45.3%.mp4''
   \<and> numeric unicode_14 [0xFF15, 0xFF10]
   \<and> (\<exists>g0. numeric unicode_14 g0
         \<and> extract_progress unicode_14 fullwidth_line
             = Some (Downloading (float_of_decimal unicode_14 g0)))
   \<and> extract_progress unicode_14 fullwidth_line = Some (Downloading 50)
   \<and> extract_progress unicode_14 (ustr ''[download]  45.3% of 10MiB'')
       = Some (Downloading (453 / 10))"
proof -
  have 1: "sublist (ustr ''[download]'') fullwidth_line" by code_simp
  have 2: "fullwidth_line
       = ustr ''[download] Destination: '' @ [0xFF15, 0xFF10] @ ustr ''%'' @ ustr '' 45.3%.mp4''"
    by (simp add: fullwidth_line_def ustr_def)
  have 3: "numeric unicode_14 [0xFF15, 0xFF10]" by code_simp
  have 4: "extract_progress unicode_14 fullwidth_line = Some (Downloading 50)"
    by code_simp
  note t = extract_progress_downloading [OF unicode_tables_14 1 2 3]
  from t have "\<exists>g0. numeric unicode_14 g0
         \<and> extract_progress unicode_14 fullwidth_line
             = Some (Downloading (float_of_decimal unicode_14 g0))"
    by blast
  moreover from t have "extract_progress unicode_14 (ustr ''[download]  45.3% of 10MiB'')
       = Some (Downloading (453 / 10))"
    by blast
  ultimately show ?thesis using unicode_tables_14 1 2 3 4 by blast
qed

text \<open>
  C6, as claimed: a line outside the downloading rule that contains the merge marker
  is reported as merging. The branch for \<open>[download]\<close> is entered on the percent sign
  alone, and the test for \<open>Merging formats\<close> is its \<open>elif\<close>: a line with \<open>[download]\<close>,
  a percent sign without a number before it and the merge marker gives nothing.
\<close>

theorem download_marker_hides_merge_marker:
  "\<not> (sublist (ustr ''[download]'') (ustr ''[download] Destination: 50 % Merging formats.mp4'')
       \<and> (\<exists>pre g post.
             ustr ''[download] Destination: 50 % Merging formats.mp4''
               = pre @ g @ ustr ''%'' @ post
             \<and> numeric unicode_14 g))
   \<and> sublist (ustr ''Merging formats'')
        (ustr ''[download] Destination: 50 % Merging formats.mp4'')
   \<and> extract_progress unicode_14 (ustr ''[download] Destination: 50 % Merging formats.mp4'')
       = None
   \<and> extract_progress unicode_14 (ustr ''[download] Destination: 50 % Merging formats.mp4'')
       \<noteq> Some Merging"
proof -
  have pct: "ustr ''%'' = [37]" by (simp add: ustr_def)
  have "re_search unicode_14 (ustr ''[download] Destination: 50 % Merging formats.mp4'') = None"
    by code_simp
  then have "\<not> (\<exists>pre g post.
      ustr ''[download] Destination: 50 % Merging formats.mp4'' = pre @ g @ ustr ''%'' @ post
      \<and> numeric unicode_14 g)"
    unfolding re_search_None_iff [OF unicode_tables_14] pct by auto
  moreover have "sublist (ustr ''Merging formats'')
      (ustr ''[download] Destination: 50 % Merging formats.mp4'')"
    by code_simp
  moreover have "extract_progress unicode_14
      (ustr ''[download] Destination: 50 % Merging formats.mp4'') = None"
    by code_simp
  ultimately show ?thesis by simp
qed

text \<open>
  C6, amended. A line outside the downloading rule is reported as merging when it
  contains \<open>Merging formats\<close> and does not contain both \<open>[download]\<close> and a percent
  sign, and gives nothing otherwise: a line with \<open>[download]\<close> and a percent sign but no
  number before a percent sign gives nothing, also when it contains the merge marker.
  In each case the percentage shown stays as it was. The digits of a number are the
  decimal digits of the interpreter's tables.
\<close>

theorem extract_progress_without_percentage:
  assumes "unicode_tables U"
    and "\<not> (sublist (ustr ''[download]'') line
      \<and> (\<exists>pre g post. line = pre @ g @ ustr ''%'' @ post \<and> numeric U g))"
  shows "extract_progress U line
      = (if sublist (ustr ''Merging formats'') line
            \<and> \<not> (sublist (ustr ''[download]'') line \<and> sublist (ustr ''%'') line)
         then Some Merging else None)
    \<and> progress_var (handle_line U line s) = progress_var s"
proof -
  note T = assms(1)
  have pct: "ustr ''%'' = [37]" by (simp add: ustr_def)
  have e: "extract_progress U line
      = (if sublist (ustr ''Merging formats'') line
            \<and> \<not> (sublist (ustr ''[download]'') line \<and> sublist (ustr ''%'') line)
         then Some Merging else None)"
  proof (cases "sublist (ustr ''[download]'') line \<and> sublist (ustr ''%'') line")
    case True
    with assms(2) have "\<forall>pre g post. line = pre @ g @ 37 # post \<longrightarrow> \<not> numeric U g"
      unfolding pct by auto
    then have "re_search U line = None" by (simp only: re_search_None_iff [OF T])
    with True show ?thesis by (simp add: extract_progress_unstripped [OF T])
  next
    case False
    then show ?thesis by (auto simp: extract_progress_unstripped [OF T])
  qed
  then have "progress_var (handle_line U line s) = progress_var s"
    by (simp add: handle_line_def)
  with e show ?thesis by simp
qed

theorem extract_progress_without_percentage_witness:
  "unicode_tables unicode_14
   \<and> \<not> sublist (ustr ''[download]'') (ustr ''[Merger] Merging formats into x.mp4'')
   \<and> extract_progress unicode_14 (ustr ''[Merger] Merging formats into x.mp4'') = Some Merging
   \<and> progress_var (handle_line unicode_14 (ustr ''[Merger] Merging formats into x.mp4'') busy_720)
       = 40
   \<and> re_search unicode_14 (ustr ''[download] Destination: x.mp4'') = None
   \<and> \<not> sublist (ustr ''Merging formats'') (ustr ''[download] Destination: x.mp4'')
   \<and> extract_progress unicode_14 (ustr ''[download] Destination: x.mp4'') = None"
proof -
  have pct: "ustr ''%'' = [37]" by (simp add: ustr_def)
  have 1: "\<not> sublist (ustr ''[download]'') (ustr ''[Merger] Merging formats into x.mp4'')"
    by code_simp
  have 2: "sublist (ustr ''Merging formats'') (ustr ''[Merger] Merging formats into x.mp4'')"
    by code_simp
  have 3: "progress_var busy_720 = 40" by code_simp
  have 4: "re_search unicode_14 (ustr ''[download] Destination: x.mp4'') = None" by code_simp
  then have 5: "\<not> (sublist (ustr ''[download]'') (ustr ''[download] Destination: x.mp4'')
      \<and> (\<exists>pre g post. ustr ''[download] Destination: x.mp4'' = pre @ g @ ustr ''%'' @ post
            \<and> numeric unicode_14 g))"
    unfolding re_search_None_iff [OF unicode_tables_14] pct by auto
  have 6: "\<not> sublist (ustr ''Merging formats'') (ustr ''[download] Destination: x.mp4'')"
    by code_simp
  from 1 have 7: "\<not> (sublist (ustr ''[download]'') (ustr ''[Merger] Merging formats into x.mp4'')
      \<and> (\<exists>pre g post. ustr ''[Merger] Merging formats into x.mp4'' = pre @ g @ ustr ''%'' @ post
            \<and> numeric unicode_14 g))"
    by simp
  from extract_progress_without_percentage [OF unicode_tables_14 7, of busy_720] 1 2 3
  have "extract_progress unicode_14 (ustr ''[Merger] Merging formats into x.mp4'') = Some Merging
    \<and> progress_var (handle_line unicode_14 (ustr ''[Merger] Merging formats into x.mp4'') busy_720)
        = 40"
    by simp
  moreover from extract_progress_without_percentage [OF unicode_tables_14 5, of busy_720] 6
  have "extract_progress unicode_14 (ustr ''[download] Destination: x.mp4'') = None"
    by simp
  ultimately show ?thesis using unicode_tables_14 1 4 6 by simp
qed

text \<open>
  C7, as claimed: the percentage of a reported line lies between 0 and 100. The
  digits before the percent sign are taken as they are.
\<close>

theorem percent_above_100:
  "extract_progress unicode_14 (ustr ''[download] 250% of ~10MiB'') = Some (Downloading 250)
   \<and> \<not> (250 :: rat) \<le> 100"
proof -
  have "extract_progress unicode_14 (ustr ''[download] 250% of ~10MiB'')
      = Some (Downloading 250)"
    by code_simp
  then show ?thesis by simp
qed

text \<open>C7, amended. The percentage of a reported line is not negative.\<close>

theorem extract_progress_percent_nonneg:
  assumes "extract_progress U line = Some (Downloading p)"
  shows "0 \<le> p"
  using assms float_of_decimal_nonneg
  by (auto simp: extract_progress_def Let_def split: if_splits option.splits)

theorem extract_progress_percent_nonneg_witness:
  "extract_progress unicode_14 (ustr ''[download] 100% of 10MiB in 00:05'')
     = Some (Downloading 100)
   \<and> (0 :: rat) \<le> 100"
proof -
  have h: "extract_progress unicode_14 (ustr ''[download] 100% of 10MiB in 00:05'')
     = Some (Downloading 100)"
    by code_simp
  from h extract_progress_percent_nonneg [OF h] show ?thesis by simp
qed

end
